theory Spec2Isabelle
  imports Complex_Main
begin

section \<open>Arrow geometry (\<open>generateArrowPath\<close>, App.tsx lines 22-77)\<close>

text \<open>
  JavaScript numbers are modelled as \<^typ>\<open>real\<close>: the model computes exactly, where the
  source rounds every operation to a double. The two agree on the inputs that are
  evaluated below, whose coordinates and square roots are small integers; they can differ
  on which side of the guard \<open>length < headLength\<close> an input falls when the distance is
  within rounding of \<open>3.5 * thickness\<close>, and the computed vertices are the exact ones
  only up to rounding. What is stated below about \<open>generateArrowPath\<close> for arbitrary
  inputs is therefore limited to what does not depend on how an operation rounds.
  The SVG path string that the source builds with a template literal is modelled by its
  sequence of commands; the empty string \<open>""\<close> is the empty command list, so the
  caller's truthiness test \<open>if (pathString)\<close> is \<open>pathString \<noteq> []\<close>.
\<close>

type_synonym point = "real \<times> real"

datatype path_cmd = M real real | L real real | Z

definition generateArrowPath :: "real \<Rightarrow> real \<Rightarrow> real \<Rightarrow> real \<Rightarrow> real \<Rightarrow> path_cmd list" where
  "generateArrowPath x1 y1 x2 y2 thickness =
     (let headLength = thickness * 3.5;
          headWidth = thickness * 3;
          shaftWidth = thickness;
          dx = x2 - x1;
          dy = y2 - y1;
          len = sqrt (dx * dx + dy * dy)
      in if len < headLength then []
         else
           (let ux = dx / len;
                uy = dy / len;
                nx = - uy;
                ny = ux;
                shaftLength = len - headLength;
                p1x = x1 + nx * (shaftWidth / 2);
                p1y = y1 + ny * (shaftWidth / 2);
                p2x = x1 + ux * shaftLength + nx * (shaftWidth / 2);
                p2y = y1 + uy * shaftLength + ny * (shaftWidth / 2);
                p3x = x1 + ux * shaftLength + nx * (headWidth / 2);
                p3y = y1 + uy * shaftLength + ny * (headWidth / 2);
                p4x = x2;
                p4y = y2;
                p5x = x1 + ux * shaftLength - nx * (headWidth / 2);
                p5y = y1 + uy * shaftLength - ny * (headWidth / 2);
                p6x = x1 + ux * shaftLength - nx * (shaftWidth / 2);
                p6y = y1 + uy * shaftLength - ny * (shaftWidth / 2);
                p7x = x1 - nx * (shaftWidth / 2);
                p7y = y1 - ny * (shaftWidth / 2)
            in [M p1x p1y, L p2x p2y, L p3x p3y, L p4x p4y, L p5x p5y, L p6x p6y, L p7x p7y, Z]))"









section \<open>The scene and the application state\<close>

text \<open>
  The canvas library (fabric, loaded from a CDN) is not part of the repository. The model
  keeps what the handlers of App.tsx observe of it: the ordered list of objects on the
  canvas, the active selection, the viewport transform, and the three object events that
  App.tsx subscribes to. An object carries an identity (\<open>oid\<close>), so that a reference held
  in \<open>tempArrowRef\<close> and the object on the canvas are the same object. Cursor styles, the
  group-selection flag and render requests change nothing the handlers read and are left
  out.

  An object is an arrow path (its outline), a unit (a group of a circle and a label, with
  the label and the position), a text label (text and position) or an image (data,
  scale and position), with a fill colour, an opacity and the two interaction flags.

  \<open>canvas.toJSON()\<close> serialises type, geometry, fill and opacity of every object but not
  the interaction flags \<open>selectable\<close> and \<open>evented\<close>, which are not among the properties
  the library exports; an object restored by \<open>loadFromJSON\<close> has the library's defaults
  for them (both true). The constant background colour of the canvas is the same in every
  snapshot and is left out. \<open>JSON.stringify\<close> and \<open>JSON.parse\<close> are inverse to each
  other on these values, so a snapshot is kept as the serialised object list itself.
\<close>

datatype tool = Select | Arrow

datatype shape =
    PathShape "path_cmd list"
  | GroupShape string real real
  | ITextShape string real real
  | ImageShape string real real real

record fobject =
  oid :: nat
  shape :: shape
  fill :: string
  opacity :: real
  selectable :: bool
  evented :: bool

type_synonym jobject = "shape \<times> string \<times> real"
type_synonym snapshot = "jobject list"

definition toJSON :: "fobject list \<Rightarrow> snapshot" where
  "toJSON objs = map (\<lambda>ob. (shape ob, fill ob, opacity ob)) objs"

definition enliven :: "nat \<Rightarrow> jobject \<Rightarrow> fobject" where
  "enliven k j = \<lparr>oid = k, shape = fst j, fill = fst (snd j), opacity = snd (snd j),
                  selectable = True, evented = True\<rparr>"

definition is_image :: "fobject \<Rightarrow> bool" where
  "is_image ob = (case shape ob of ImageShape _ _ _ _ \<Rightarrow> True | _ \<Rightarrow> False)"

text \<open>
  The state: the refs and local variables of the component (\<open>historyRef\<close>, \<open>colorRef\<close>,
  \<open>toolRef\<close>, \<open>thicknessRef\<close>, \<open>isDrawingRef\<close>, \<open>arrowStartRef\<close>, \<open>tempArrowRef\<close>,
  \<open>isPanning\<close>, \<open>lastPosX\<close>, \<open>lastPosY\<close>), the React state \<open>isProcessing\<close> and
  \<open>pieceName\<close>, and the canvas. The React states \<open>pieceColor\<close>, \<open>tool\<close> and
  \<open>arrowThickness\<close> are copied into their refs by the effects of lines 104-106 after every
  render, so each pair is one field. \<open>hasCanvas\<close> is \<open>fabricCanvasRef.current \<noteq> null\<close>;
  \<open>active\<close> holds the identities of the selected objects and \<open>editing\<close> says that the
  selected object is a text in editing mode (the library's \<open>isEditing\<close>); \<open>width\<close>,
  \<open>height\<close> and \<open>vpt_zoom\<close>, \<open>vpt_x\<close>, \<open>vpt_y\<close> are the canvas size and the entries
  0 (equal to 3), 4 and 5 of \<open>viewportTransform\<close>; \<open>loading\<close> holds the snapshots handed
  to \<open>loadFromJSON\<close> whose load has not run yet; \<open>nextId\<close> supplies identities for new
  objects. \<open>clearFiresRemoved\<close> is a property of the installed library, constant during
  a session: whether \<open>canvas.clear()\<close> fires \<open>object:removed\<close> for every object it
  drops (releases 4 and 5 of the library do).
\<close>

record app_state =
  hasCanvas :: bool
  canvas :: "fobject list"
  active :: "nat list"
  editing :: bool
  width :: real
  height :: real
  vpt_zoom :: real
  vpt_x :: real
  vpt_y :: real
  pieceName :: string
  isProcessing :: bool
  historyRef :: "snapshot list"
  colorRef :: string
  toolRef :: tool
  thicknessRef :: real
  isDrawingRef :: bool
  arrowStartRef :: "point option"
  tempArrowRef :: "nat option"
  isPanning :: bool
  lastPosX :: real
  lastPosY :: real
  loading :: "snapshot list"
  nextId :: nat
  clearFiresRemoved :: bool


section \<open>History (App.tsx lines 110-132)\<close>

text \<open>
  The two ways in which the handlers change the stack, as operations on lists: the push
  of \<open>saveHistory\<close> (skipped on a snapshot equal to the top, followed by the eviction
  of the oldest entry above 50 entries) and the pop of \<open>handleUndo\<close>. \<open>evolves h h'\<close>
  says that \<open>h'\<close> comes from \<open>h\<close> by a sequence of such operations.
\<close>

definition commit :: "snapshot \<Rightarrow> snapshot list \<Rightarrow> snapshot list" where
  "commit json h =
     (if h \<noteq> [] \<and> last h = json then h
      else (let pushed = h @ [json] in if length pushed > 50 then tl pushed else pushed))"

inductive evolves :: "snapshot list \<Rightarrow> snapshot list \<Rightarrow> bool" where
  same: "evolves h h"
| push: "evolves h h' \<Longrightarrow> evolves h (commit json h')"
| pop: "evolves h h' \<Longrightarrow> 1 < length h' \<Longrightarrow> evolves h (butlast h')"

text \<open>
  \<open>saveHistory\<close> is a \<open>useCallback\<close> closure over the React state \<open>isProcessing\<close>; the
  value it tests is the one of the render that created the closure. The model passes that
  captured value as the first argument.
\<close>

definition saveHistory :: "bool \<Rightarrow> app_state \<Rightarrow> app_state" where
  "saveHistory isProcessing_captured s =
     (if \<not> hasCanvas s \<or> isProcessing_captured then s
      else
        (let json = toJSON (canvas s) in
         if length (historyRef s) > 0 \<and> last (historyRef s) = json then s
         else
           (let pushed = historyRef s @ [json];
                capped = (if length pushed > 50 then tl pushed else pushed)
            in s\<lparr>historyRef := capped\<rparr>)))"

text \<open>
  \<open>handleUndo\<close> (lines 122-132) is split in two: \<^emph>\<open>this\<close> definition is the handler up to
  the point where it hands the snapshot to the library (guard, \<open>setIsProcessing(true)\<close>,
  pop), and \<open>loadFromJSON\<close> below is the load itself with its completion callback. The
  snapshot passes from one to the other through \<open>loading\<close>. For a snapshot without
  images the library runs the load and the callback before \<open>handleUndo\<close> returns, so
  one press of Ctrl+Z, or one click on the undo button, is the event \<open>KeyUndo\<close>
  immediately followed by \<open>LoadFromJSON\<close>; only when images have to be decoded do
  other events come in between.
\<close>

definition handleUndo :: "app_state \<Rightarrow> app_state" where
  "handleUndo s =
     (if \<not> hasCanvas s \<or> length (historyRef s) \<le> 1 then s
      else
        (let popped = butlast (historyRef s);
             prevState = last popped
         in s\<lparr>isProcessing := True, historyRef := popped, loading := loading s @ [prevState]\<rparr>))"

text \<open>
  The subscriptions of lines 178-180 are registered once, by the initialisation effect,
  whose dependency list is \<open>[handleUndo]\<close> and \<open>handleUndo\<close> has the dependency list
  \<open>[]\<close>. The \<open>saveHistory\<close> they call is therefore the closure of the first render, in
  which \<open>isProcessing\<close> is the initial state \<open>false\<close>. The same holds for the call in the
  \<open>mouse:up\<close> handler and for the call of line 176.
\<close>

definition on_object_added :: "app_state \<Rightarrow> app_state" where
  "on_object_added s = (if \<not> isDrawingRef s then saveHistory False s else s)"

definition on_object_modified :: "app_state \<Rightarrow> app_state" where
  "on_object_modified s = saveHistory False s"

definition on_object_removed :: "app_state \<Rightarrow> app_state" where
  "on_object_removed s = saveHistory False s"

text \<open>
  \<open>canvas.add\<close> appends the object and fires \<open>object:added\<close>; \<open>canvas.remove\<close> takes the
  object off the canvas (and out of the active selection) and fires \<open>object:removed\<close>,
  and does nothing for an object that is not on the canvas.
\<close>

definition canvas_add :: "fobject \<Rightarrow> app_state \<Rightarrow> app_state" where
  "canvas_add ob s = on_object_added (s\<lparr>canvas := canvas s @ [ob]\<rparr>)"

definition canvas_remove :: "nat \<Rightarrow> app_state \<Rightarrow> app_state" where
  "canvas_remove k s =
     (if k \<in> set (map oid (canvas s))
      then on_object_removed
             (s\<lparr>canvas := filter (\<lambda>ob. oid ob \<noteq> k) (canvas s),
                active := removeAll k (active s),
                editing := (editing s \<and> k \<notin> set (active s))\<rparr>)
      else s)"

text \<open>
  \<open>canvas.clear()\<close> discards the active selection and drops every object. With
  \<open>clearFiresRemoved\<close> it fires \<open>object:removed\<close> for each of them, one after the other,
  which is what removing them one by one does; otherwise nothing is fired.
\<close>

definition clear_canvas :: "app_state \<Rightarrow> app_state" where
  "clear_canvas s =
     (let s1 = s\<lparr>active := [], editing := False\<rparr>
      in if clearFiresRemoved s1 then fold canvas_remove (map oid (canvas s1)) s1
         else s1\<lparr>canvas := []\<rparr>)"

text \<open>
  \<open>loadFromJSON(snapshot, callback)\<close>: the library clears the canvas, inserts the restored
  objects one by one, firing \<open>object:added\<close> for each, and then runs the callback of
  lines 127-131, which resets \<open>isProcessing\<close>.
\<close>

definition insert_restored :: "jobject \<Rightarrow> app_state \<Rightarrow> app_state" where
  "insert_restored j s = canvas_add (enliven (nextId s) j) (s\<lparr>nextId := Suc (nextId s)\<rparr>)"

definition loadFromJSON :: "app_state \<Rightarrow> app_state" where
  "loadFromJSON s =
     (case loading s of
        [] \<Rightarrow> s
      | snap # rest \<Rightarrow>
          (let cleared = clear_canvas (s\<lparr>loading := rest\<rparr>);
               restored = fold insert_restored snap cleared
           in restored\<lparr>isProcessing := False\<rparr>))"


section \<open>Tool switching (lines 135-151)\<close>

definition tool_effect :: "app_state \<Rightarrow> app_state" where
  "tool_effect s =
     (if \<not> hasCanvas s then s
      else if toolRef s = Arrow
      then s\<lparr>canvas := map (\<lambda>ob. ob\<lparr>selectable := False\<rparr>) (canvas s)\<rparr>
      else s\<lparr>canvas := map (\<lambda>ob. ob\<lparr>selectable := True\<rparr>) (canvas s)\<rparr>)"

text \<open>\<open>setTool\<close>: a render, and the effects depending on \<open>tool\<close>, happen only on a change.\<close>

definition setTool :: "tool \<Rightarrow> app_state \<Rightarrow> app_state" where
  "setTool t s = (if t = toolRef s then s else tool_effect (s\<lparr>toolRef := t\<rparr>))"


section \<open>Pointer, wheel and keyboard handlers (lines 187-324)\<close>

text \<open>
  A pointer event carries \<open>altKey\<close>, \<open>button\<close>, \<open>clientX\<close>, \<open>clientY\<close> and the scene-space
  point \<open>canvas.getPointer(evt)\<close> that the library computes for it.
\<close>

definition mouse_down :: "bool \<Rightarrow> nat \<Rightarrow> real \<Rightarrow> real \<Rightarrow> point \<Rightarrow> app_state \<Rightarrow> app_state" where
  "mouse_down altKey button clientX clientY pointer s =
     (if altKey \<or> button = 1
      then s\<lparr>isPanning := True, lastPosX := clientX, lastPosY := clientY\<rparr>
      else if toolRef s = Arrow
      then s\<lparr>isDrawingRef := True, arrowStartRef := Some pointer\<rparr>
      else s)"

definition new_preview :: "nat \<Rightarrow> path_cmd list \<Rightarrow> string \<Rightarrow> fobject" where
  "new_preview k pathString color =
     \<lparr>oid = k, shape = PathShape pathString, fill = color, opacity = 0.8,
      selectable = False, evented = False\<rparr>"

definition mouse_move :: "real \<Rightarrow> real \<Rightarrow> point \<Rightarrow> app_state \<Rightarrow> app_state" where
  "mouse_move clientX clientY pointer s =
     (if isPanning s
      then s\<lparr>vpt_x := vpt_x s + (clientX - lastPosX s),
             vpt_y := vpt_y s + (clientY - lastPosY s),
             lastPosX := clientX, lastPosY := clientY\<rparr>
      else if toolRef s = Arrow \<and> isDrawingRef s \<and> arrowStartRef s \<noteq> None
      then
        (let start = the (arrowStartRef s);
             pathString = generateArrowPath (fst start) (snd start) (fst pointer) (snd pointer)
                            (thicknessRef s);
             s1 = (case tempArrowRef s of Some k \<Rightarrow> canvas_remove k s | None \<Rightarrow> s)
         in if pathString \<noteq> []
            then canvas_add (new_preview (nextId s1) pathString (colorRef s1))
                   (s1\<lparr>tempArrowRef := Some (nextId s1), nextId := Suc (nextId s1)\<rparr>)
            else s1)
      else s)"

definition finalize :: "nat \<Rightarrow> fobject \<Rightarrow> fobject" where
  "finalize k ob =
     (if oid ob = k then ob\<lparr>selectable := True, evented := True, opacity := 1\<rparr> else ob)"

definition mouse_up :: "app_state \<Rightarrow> app_state" where
  "mouse_up s =
     (if isPanning s then s\<lparr>isPanning := False\<rparr>
      else if toolRef s = Arrow \<and> isDrawingRef s
      then
        (let s1 = s\<lparr>isDrawingRef := False\<rparr> in
         case tempArrowRef s1 of
           None \<Rightarrow> s1
         | Some k \<Rightarrow>
             (let s2 = s1\<lparr>canvas := map (finalize k) (canvas s1)\<rparr>;
                  s3 = saveHistory False s2
              in s3\<lparr>tempArrowRef := None, arrowStartRef := None\<rparr>))
      else s)"

text \<open>
  \<open>zoomToPoint\<close> is the library's: it sets the zoom and moves the pan offset so that the
  scene point under the anchor stays there.
\<close>

definition zoomToPoint :: "real \<Rightarrow> real \<Rightarrow> real \<Rightarrow> app_state \<Rightarrow> app_state" where
  "zoomToPoint ax ay zoom s =
     s\<lparr>vpt_zoom := zoom,
       vpt_x := ax - (ax - vpt_x s) / vpt_zoom s * zoom,
       vpt_y := ay - (ay - vpt_y s) / vpt_zoom s * zoom\<rparr>"

definition mouse_wheel :: "real \<Rightarrow> real \<Rightarrow> real \<Rightarrow> app_state \<Rightarrow> app_state" where
  "mouse_wheel deltaY offsetX offsetY s =
     (let delta = deltaY;
          zoom0 = vpt_zoom s;
          zoom1 = zoom0 * (0.999 powr delta);
          zoom2 = (if zoom1 > 20 then 20 else zoom1);
          zoom3 = (if zoom2 < 0.1 then 0.1 else zoom2)
      in zoomToPoint offsetX offsetY zoom3 s)"

definition handleDeleteSelected :: "app_state \<Rightarrow> app_state" where
  "handleDeleteSelected s =
     (if \<not> hasCanvas s then s
      else
        (let activeObjects = active s in
         if length activeObjects > 0
         then fold canvas_remove activeObjects (s\<lparr>active := [], editing := False\<rparr>)
         else s))"

definition key_delete :: "app_state \<Rightarrow> app_state" where
  "key_delete s = (if active s \<noteq> [] \<and> \<not> editing s then handleDeleteSelected s else s)"

definition key_escape :: "app_state \<Rightarrow> app_state" where
  "key_escape s =
     (if isDrawingRef s
      then
        (let s1 = (case tempArrowRef s of Some k \<Rightarrow> canvas_remove k s | None \<Rightarrow> s)
         in s1\<lparr>isDrawingRef := False, tempArrowRef := None\<rparr>)
      else setTool Select s)"


section \<open>Toolbar handlers (lines 337-451)\<close>

text \<open>
  These functions are recreated on every render, so the \<open>saveHistory\<close> they call tests
  the current \<open>isProcessing\<close>. Their \<open>setTool('select')\<close> takes effect with the render
  that follows the handler.
\<close>

text \<open>
  \<open>handleImageUpload\<close>: the file is read and decoded asynchronously, and the work is
  done by the callback of \<open>fabric.Image.fromURL\<close> (lines 343-363), which is the event
  modelled here, with the image data and its pixel size. \<open>sendToBack\<close> moves the image
  to the front of the object list, which is the bottom of the drawing order.
\<close>

definition image_loaded :: "string \<Rightarrow> real \<Rightarrow> real \<Rightarrow> app_state \<Rightarrow> app_state" where
  "image_loaded data img_width img_height s =
     (if \<not> hasCanvas s then s
      else
        (let s1 = s\<lparr>vpt_zoom := 1, vpt_x := 0, vpt_y := 0\<rparr>;
             scale = min (width s1 / img_width) (height s1 / img_height);
             img = \<lparr>oid = nextId s1,
                    shape = ImageShape data (min scale 1) (width s1 / 2) (height s1 / 2),
                    fill = [], opacity = 0.9, selectable = False, evented = False\<rparr>;
             s2 = fold (\<lambda>ob st. if is_image ob then canvas_remove (oid ob) st else st)
                    (canvas s1) (s1\<lparr>nextId := Suc (nextId s1)\<rparr>);
             s3 = canvas_add img s2;
             s4 = s3\<lparr>canvas := filter (\<lambda>ob. oid ob = oid img) (canvas s3)
                                 @ filter (\<lambda>ob. oid ob \<noteq> oid img) (canvas s3)\<rparr>
         in saveHistory (isProcessing s4) s4))"

text \<open>
  \<open>addPiece\<close> and \<open>addText\<close> differ only in the object they create; \<open>add_object\<close> is
  their common body. The label of a unit is \<open>pieceName.substring(0, 2).toUpperCase()\<close>,
  modelled on ASCII letters.
\<close>

definition toUpperCase :: "string \<Rightarrow> string" where
  "toUpperCase str =
     map (\<lambda>c. let n = (of_char c :: nat) in if 97 \<le> n \<and> n \<le> 122 then char_of (n - 32) else c) str"

definition view_center :: "app_state \<Rightarrow> point" where
  "view_center s =
     ((- vpt_x s + width s / 2) / vpt_zoom s, (- vpt_y s + height s / 2) / vpt_zoom s)"

definition add_object :: "shape \<Rightarrow> string \<Rightarrow> app_state \<Rightarrow> app_state" where
  "add_object sh color s =
     (if \<not> hasCanvas s then setTool Select s
      else
        (let ob = \<lparr>oid = nextId s, shape = sh, fill = color, opacity = 1,
                   selectable = True, evented = True\<rparr>;
             s1 = canvas_add ob (s\<lparr>nextId := Suc (nextId s)\<rparr>);
             s2 = s1\<lparr>active := [oid ob], editing := False\<rparr>;
             s3 = saveHistory (isProcessing s2) s2
         in setTool Select s3))"

definition addPiece :: "app_state \<Rightarrow> app_state" where
  "addPiece s =
     add_object
       (GroupShape (toUpperCase (take 2 (pieceName s))) (fst (view_center s)) (snd (view_center s)))
       (colorRef s) s"

definition addText :: "app_state \<Rightarrow> app_state" where
  "addText s =
     add_object (ITextShape ''NOTES'' (fst (view_center s)) (snd (view_center s))) ''#1f2937'' s"

text \<open>\<open>handleClearBoard\<close>, after the user has confirmed the dialog.\<close>

definition handleClearBoard :: "app_state \<Rightarrow> app_state" where
  "handleClearBoard s =
     (if \<not> hasCanvas s then s
      else
        (let s1 = clear_canvas s
         in saveHistory (isProcessing s1) s1))"


section \<open>Direct manipulation through the library\<close>

text \<open>
  What the library does on its own with the pointer is not part of the handlers of
  App.tsx, and is modelled by two events of its own. The user selects objects (only
  objects whose \<open>selectable\<close> flag is set can be picked), and drags, resizes or edits
  one, after which the library fires \<open>object:modified\<close>. The library does this in every
  tool mode, for any object that is \<open>selectable\<close> and \<open>evented\<close>: a press on such an
  object starts a drag of it besides running the \<open>mouse:down\<close> handler, and on release
  the library fires \<open>object:modified\<close> before the \<open>mouse:up\<close> handler runs. In a
  session this is the event \<open>UserModify\<close> just before \<open>MouseUp\<close>.
\<close>

definition user_select :: "nat list \<Rightarrow> bool \<Rightarrow> app_state \<Rightarrow> app_state" where
  "user_select ks ed s =
     (let picked = filter (\<lambda>k. k \<in> set (map oid (filter selectable (canvas s)))) (remdups ks)
      in s\<lparr>active := picked, editing := (ed \<and> length picked = 1)\<rparr>)"

definition user_modify :: "nat \<Rightarrow> shape \<Rightarrow> app_state \<Rightarrow> app_state" where
  "user_modify k sh s =
     (if k \<in> set (map oid (canvas s))
      then on_object_modified
             (s\<lparr>canvas := map (\<lambda>ob. if oid ob = k then ob\<lparr>shape := sh\<rparr> else ob) (canvas s)\<rparr>)
      else s)"


section \<open>Initialisation and the event loop\<close>

definition unmounted :: app_state where
  "unmounted =
     \<lparr>hasCanvas = False, canvas = [], active = [], editing = False,
      width = 0, height = 0, vpt_zoom = 1, vpt_x = 0, vpt_y = 0,
      pieceName = ''Infantry'', isProcessing = False, historyRef = [],
      colorRef = ''#ef4444'', toolRef = Select, thicknessRef = 6,
      isDrawingRef = False, arrowStartRef = None, tempArrowRef = None,
      isPanning = False, lastPosX = 0, lastPosY = 0, loading = [], nextId = 0,
      clearFiresRemoved = False\<rparr>"

text \<open>
  The initialisation effect (lines 155-181): the canvas is created and sized to its
  container, and \<open>saveHistory()\<close> commits the base scene.
\<close>

definition initial :: "real \<Rightarrow> real \<Rightarrow> app_state" where
  "initial w h = saveHistory False (unmounted\<lparr>hasCanvas := True, width := w, height := h\<rparr>)"

text \<open>The same with a library whose \<open>clear\<close> fires \<open>object:removed\<close>.\<close>

definition initial_clear_fires :: "real \<Rightarrow> real \<Rightarrow> app_state" where
  "initial_clear_fires w h =
     saveHistory False
       (unmounted\<lparr>hasCanvas := True, width := w, height := h, clearFiresRemoved := True\<rparr>)"

datatype event =
    MouseDown bool nat real real point
  | MouseMove real real point
  | MouseUp
  | MouseWheel real real real
  | KeyDelete
  | KeyUndo
  | KeyEscape
  | SetTool tool
  | SetArrowThickness real
  | SetPieceColor string
  | SetPieceName string
  | AddPiece
  | AddText
  | ClearBoard
  | DeleteButton
  | ImageLoaded string real real
  | UserSelect "nat list" bool
  | UserModify nat shape
  | LoadFromJSON
  | Resize real real

fun step :: "event \<Rightarrow> app_state \<Rightarrow> app_state" where
  "step (MouseDown altKey button cx cy p) s = mouse_down altKey button cx cy p s"
| "step (MouseMove cx cy p) s = mouse_move cx cy p s"
| "step MouseUp s = mouse_up s"
| "step (MouseWheel d ox oy) s = mouse_wheel d ox oy s"
| "step KeyDelete s = key_delete s"
| "step KeyUndo s = handleUndo s"
| "step KeyEscape s = key_escape s"
| "step (SetTool t) s = setTool t s"
| "step (SetArrowThickness v) s = s\<lparr>thicknessRef := v\<rparr>"
| "step (SetPieceColor c) s = s\<lparr>colorRef := c\<rparr>"
| "step (SetPieceName n) s = s\<lparr>pieceName := n\<rparr>"
| "step AddPiece s = addPiece s"
| "step AddText s = addText s"
| "step ClearBoard s = handleClearBoard s"
| "step DeleteButton s = handleDeleteSelected s"
| "step (ImageLoaded data iw ih) s = image_loaded data iw ih s"
| "step (UserSelect ks ed) s = user_select ks ed s"
| "step (UserModify k sh) s = user_modify k sh s"
| "step LoadFromJSON s = loadFromJSON s"
| "step (Resize w h) s = s\<lparr>width := w, height := h\<rparr>"

definition run :: "event list \<Rightarrow> app_state \<Rightarrow> app_state" where
  "run evs s = fold step evs s"


section \<open>Vocabulary for the properties of the event loop\<close>

text \<open>
  Facts about identities and references that hold in every reachable state: the canvas
  exists, every object on it was created before \<open>nextId\<close>, the active selection has no
  duplicates and consists of objects on the canvas, and \<open>tempArrowRef\<close> is set only
  while a drawing gesture is in progress.
\<close>

definition wf_state :: "app_state \<Rightarrow> bool" where
  "wf_state s \<longleftrightarrow>
     hasCanvas s \<and>
     (\<forall>ob \<in> set (canvas s). oid ob < nextId s) \<and>
     distinct (active s) \<and>
     set (active s) \<subseteq> set (map oid (canvas s)) \<and>
     (\<forall>k. tempArrowRef s = Some k \<longrightarrow> k < nextId s) \<and>
     (\<not> isDrawingRef s \<longrightarrow> tempArrowRef s = None)"

text \<open>The last \<open>n\<close> entries of a list.\<close>

definition lastn :: "nat \<Rightarrow> 'a list \<Rightarrow> 'a list" where
  "lastn n xs = drop (length xs - n) xs"

text \<open>
  The snapshots of a scene from which the objects with the given identities are removed
  one after the other.
\<close>

fun removal_snapshots :: "nat list \<Rightarrow> fobject list \<Rightarrow> snapshot list" where
  "removal_snapshots [] c = []"
| "removal_snapshots (k # ks) c =
     toJSON (filter (\<lambda>ob. oid ob \<noteq> k) c) # removal_snapshots ks (filter (\<lambda>ob. oid ob \<noteq> k) c)"


section \<open>Example sessions\<close>

text \<open>
  Concrete sessions on an 800 by 600 canvas, used to evaluate the handlers: the arrow
  tool just selected; a map and a unit placed and Ctrl+Z pressed in arrow mode, the load
  of the previous snapshot not yet run; three units placed and Ctrl+Z pressed; two units
  placed and both selected; a map loaded; a unit placed and moved 48 times, which fills
  the stack, and an arrow preview drawn over it; one arrow drawn with the arrow tool,
  which is still selected; three units placed, with either behaviour of \<open>clear\<close>; and
  one press of Ctrl+Z on a scene without images.
\<close>

definition arrow_ready :: app_state where
  "arrow_ready = run [SetTool Arrow] (initial 800 600)"

definition undo_pending :: app_state where
  "undo_pending =
     run [ImageLoaded ''map'' 1600 1200, AddPiece, SetTool Arrow, KeyUndo] (initial 800 600)"

definition three_units_undone :: app_state where
  "three_units_undone = run [AddPiece, AddPiece, AddPiece, KeyUndo] (initial 800 600)"

definition two_selected :: app_state where
  "two_selected = run [AddPiece, AddPiece, UserSelect [0, 1] False] (initial 800 600)"

definition map_loaded :: app_state where
  "map_loaded = run [ImageLoaded ''map'' 1600 1200] (initial 800 600)"

definition one_arrow :: app_state where
  "one_arrow =
     run [MouseDown False 0 0 0 (0, 0), MouseMove 100 0 (100, 0), MouseUp] arrow_ready"

definition three_units :: app_state where
  "three_units = run [AddPiece, AddPiece, AddPiece] (initial 800 600)"

definition three_units_clear_fires :: app_state where
  "three_units_clear_fires = run [AddPiece, AddPiece, AddPiece] (initial_clear_fires 800 600)"

definition undo_once :: "event list" where
  "undo_once = [KeyUndo, LoadFromJSON]"

definition full_stack_events :: "event list" where
  "full_stack_events =
     AddPiece # map (\<lambda>i. UserModify 0 (GroupShape ''IN'' (real i) 0)) [0..<48]
       @ [SetTool Arrow, MouseDown False 0 0 0 (0, 0), MouseMove 100 0 (100, 0)]"

text \<open>The stack is full and its top is not the current scene.\<close>

definition full_unsaved :: "app_state \<Rightarrow> bool" where
  "full_unsaved s \<longleftrightarrow> length (historyRef s) = 50 \<and> last (historyRef s) \<noteq> toJSON (canvas s)"


section \<open>The arrow outline\<close>

lemma sqrt_10000: "sqrt 10000 = 100"
  using real_sqrt_abs[of 100] by simp

lemma sqrt_14400: "sqrt 14400 = 120"
  using real_sqrt_abs[of 120] by simp

lemma example_paths:
  "generateArrowPath 0 0 100 0 6 \<noteq> []" "generateArrowPath 0 0 120 0 6 \<noteq> []"
  "generateArrowPath 0 0 100 0 16 \<noteq> []" "generateArrowPath 0 0 1 0 6 = []"
  "generateArrowPath 50 0 150 0 6 \<noteq> []"
  by (simp_all add: generateArrowPath_def Let_def sqrt_10000 sqrt_14400)






section \<open>The history stack changes only by commits and pops\<close>

lemma saveHistory_eq:
  "saveHistory ip s =
     s\<lparr>historyRef := (if \<not> hasCanvas s \<or> ip then historyRef s
                       else commit (toJSON (canvas s)) (historyRef s))\<rparr>"
  by (simp add: saveHistory_def commit_def Let_def)

lemma evolves_trans: "evolves b c \<Longrightarrow> evolves a b \<Longrightarrow> evolves a c"
  by (induction rule: evolves.induct) (auto intro: evolves.intros)

lemma ev_saveHistory: "evolves (historyRef s) (historyRef (saveHistory ip s))"
  by (simp add: saveHistory_eq evolves.intros)

lemma ev_on_object_added: "evolves (historyRef s) (historyRef (on_object_added s))"
  by (simp add: on_object_added_def ev_saveHistory evolves.same)

lemma ev_on_object_modified: "evolves (historyRef s) (historyRef (on_object_modified s))"
  by (simp add: on_object_modified_def ev_saveHistory)

lemma ev_on_object_removed: "evolves (historyRef s) (historyRef (on_object_removed s))"
  by (simp add: on_object_removed_def ev_saveHistory)

lemma ev_canvas_add: "evolves (historyRef s) (historyRef (canvas_add ob s))"
  using ev_on_object_added[of "s\<lparr>canvas := canvas s @ [ob]\<rparr>"] by (simp add: canvas_add_def)

lemma ev_canvas_remove: "evolves (historyRef s) (historyRef (canvas_remove k s))"
  using ev_on_object_removed[of "s\<lparr>canvas := filter (\<lambda>ob. oid ob \<noteq> k) (canvas s),
                active := removeAll k (active s),
                editing := (editing s \<and> k \<notin> set (active s))\<rparr>"]
  by (simp add: canvas_remove_def evolves.same)

lemma ev_fold:
  assumes "\<And>x s. evolves (historyRef s) (historyRef (f x s))"
  shows "evolves (historyRef s) (historyRef (fold f xs s))"
proof (induction xs arbitrary: s)
  case Nil
  show ?case by (simp add: evolves.same)
next
  case (Cons x xs)
  show ?case using evolves_trans[OF Cons.IH[of "f x s"] assms[of s x]] by simp
qed

lemma ev_insert_restored: "evolves (historyRef s) (historyRef (insert_restored j s))"
  using ev_canvas_add[of "s\<lparr>nextId := Suc (nextId s)\<rparr>"] by (simp add: insert_restored_def)

lemma ev_clear_canvas: "evolves (historyRef s) (historyRef (clear_canvas s))"
proof (cases "clearFiresRemoved s")
  case True
  show ?thesis
    using ev_fold[of canvas_remove "s\<lparr>active := [], editing := False\<rparr>" "map oid (canvas s)",
                  OF ev_canvas_remove] True
    by (simp add: clear_canvas_def Let_def)
next
  case False
  then show ?thesis by (simp add: clear_canvas_def Let_def evolves.same)
qed

lemma ev_loadFromJSON: "evolves (historyRef s) (historyRef (loadFromJSON s))"
proof (cases "loading s")
  case Nil
  then show ?thesis by (simp add: loadFromJSON_def evolves.same)
next
  case (Cons snap rest)
  have a: "evolves (historyRef s) (historyRef (clear_canvas (s\<lparr>loading := rest\<rparr>)))"
    using ev_clear_canvas[of "s\<lparr>loading := rest\<rparr>"] by simp
  have "evolves (historyRef s)
          (historyRef (fold insert_restored snap (clear_canvas (s\<lparr>loading := rest\<rparr>))))"
    by (rule evolves_trans[OF ev_fold[of insert_restored, OF ev_insert_restored] a])
  then show ?thesis by (simp add: loadFromJSON_def Cons Let_def)
qed

lemma ev_handleUndo: "evolves (historyRef s) (historyRef (handleUndo s))"
  by (auto simp add: handleUndo_def Let_def intro: evolves.intros)

lemma historyRef_tool_effect [simp]: "historyRef (tool_effect s) = historyRef s"
  by (simp add: tool_effect_def)

lemma historyRef_setTool [simp]: "historyRef (setTool t s) = historyRef s"
  by (simp add: setTool_def)

lemma ev_mouse_down: "evolves (historyRef s) (historyRef (mouse_down a b cx cy p s))"
  by (simp add: mouse_down_def evolves.same)

lemma ev_case_remove:
  "evolves (historyRef s) (historyRef (case t of Some k \<Rightarrow> canvas_remove k s | None \<Rightarrow> s))"
  by (cases t) (simp_all add: ev_canvas_remove evolves.same)

lemma ev_mouse_move: "evolves (historyRef s) (historyRef (mouse_move cx cy p s))"
proof -
  let ?s1 = "case tempArrowRef s of Some k \<Rightarrow> canvas_remove k s | None \<Rightarrow> s"
  have a: "evolves (historyRef s) (historyRef ?s1)" by (rule ev_case_remove)
  have b: "evolves (historyRef ?s1)
             (historyRef (canvas_add ob (?s1\<lparr>tempArrowRef := Some (nextId ?s1), nextId := Suc (nextId ?s1)\<rparr>)))"
    for ob
    using ev_canvas_add[of "?s1\<lparr>tempArrowRef := Some (nextId ?s1), nextId := Suc (nextId ?s1)\<rparr>" ob]
    by simp
  show ?thesis
    using a evolves_trans[OF b a]
    by (simp add: mouse_move_def Let_def evolves.same)
qed

lemma ev_mouse_up: "evolves (historyRef s) (historyRef (mouse_up s))"
proof -
  have "evolves (historyRef s)
          (historyRef (saveHistory False (s\<lparr>isDrawingRef := False, canvas := map (finalize k) (canvas s)\<rparr>)))" for k
    using ev_saveHistory[of "s\<lparr>isDrawingRef := False, canvas := map (finalize k) (canvas s)\<rparr>" False]
    by simp
  then show ?thesis
    by (simp add: mouse_up_def Let_def evolves.same split: option.split)
qed

lemma historyRef_mouse_wheel [simp]: "historyRef (mouse_wheel d ox oy s) = historyRef s"
  by (simp add: mouse_wheel_def zoomToPoint_def Let_def)

lemma ev_handleDeleteSelected: "evolves (historyRef s) (historyRef (handleDeleteSelected s))"
  using ev_fold[of canvas_remove "s\<lparr>active := [], editing := False\<rparr>" "active s", OF ev_canvas_remove]
  by (simp add: handleDeleteSelected_def Let_def evolves.same)

lemma ev_key_delete: "evolves (historyRef s) (historyRef (key_delete s))"
  by (simp add: key_delete_def ev_handleDeleteSelected evolves.same)

lemma ev_key_escape: "evolves (historyRef s) (historyRef (key_escape s))"
  using ev_case_remove[of s "tempArrowRef s"]
  by (simp add: key_escape_def Let_def evolves.same)

lemma ev_image_loaded: "evolves (historyRef s) (historyRef (image_loaded data iw ih s))"
proof (cases "hasCanvas s")
  case False
  then show ?thesis by (simp add: image_loaded_def evolves.same)
next
  case True
  let ?s1 = "s\<lparr>vpt_zoom := 1, vpt_x := 0, vpt_y := 0\<rparr>"
  let ?f = "\<lambda>ob st. if is_image ob then canvas_remove (oid ob) st else st"
  let ?s2 = "fold ?f (canvas ?s1) (?s1\<lparr>nextId := Suc (nextId ?s1)\<rparr>)"
  have f: "evolves (historyRef st) (historyRef (?f ob st))" for ob st
    by (simp add: ev_canvas_remove evolves.same)
  have a: "evolves (historyRef s) (historyRef ?s2)"
    using ev_fold[of ?f "?s1\<lparr>nextId := Suc (nextId ?s1)\<rparr>" "canvas ?s1", OF f] by simp
  have b: "evolves (historyRef s) (historyRef (canvas_add img ?s2))" for img
    by (rule evolves_trans[OF ev_canvas_add a])
  have c: "evolves (historyRef s) (historyRef (saveHistory ip (canvas_add img ?s2\<lparr>canvas := cv\<rparr>)))" for img ip cv
    using evolves_trans[OF ev_saveHistory[of "canvas_add img ?s2\<lparr>canvas := cv\<rparr>" ip] ] b[of img]
    by simp
  show ?thesis
    using True c by (simp add: image_loaded_def Let_def)
qed

lemma ev_add_object: "evolves (historyRef s) (historyRef (add_object sh c s))"
proof (cases "hasCanvas s")
  case False
  then show ?thesis by (simp add: add_object_def evolves.same)
next
  case True
  let ?s1 = "canvas_add \<lparr>oid = nextId s, shape = sh, fill = c, opacity = 1,
                   selectable = True, evented = True\<rparr> (s\<lparr>nextId := Suc (nextId s)\<rparr>)"
  have a: "evolves (historyRef s) (historyRef ?s1)"
    using ev_canvas_add[of "s\<lparr>nextId := Suc (nextId s)\<rparr>"] by simp
  have "evolves (historyRef s) (historyRef (saveHistory ip (?s1\<lparr>active := ks, editing := False\<rparr>)))" for ip ks
    using evolves_trans[OF ev_saveHistory[of "?s1\<lparr>active := ks, editing := False\<rparr>" ip]] a by simp
  then show ?thesis using True by (simp add: add_object_def Let_def)
qed

lemma ev_handleClearBoard: "evolves (historyRef s) (historyRef (handleClearBoard s))"
  using evolves_trans[OF ev_saveHistory[of "clear_canvas s"] ev_clear_canvas[of s]]
  by (simp add: handleClearBoard_def Let_def evolves.same)

lemma ev_user_modify: "evolves (historyRef s) (historyRef (user_modify k sh s))"
  using ev_on_object_modified[of "s\<lparr>canvas := map (\<lambda>ob. if oid ob = k then ob\<lparr>shape := sh\<rparr> else ob) (canvas s)\<rparr>"]
  by (simp add: user_modify_def evolves.same)

lemma ev_step: "evolves (historyRef s) (historyRef (step e s))"
  by (cases e)
     (simp_all add: ev_mouse_down ev_mouse_move ev_mouse_up ev_key_delete ev_handleUndo ev_key_escape
        addPiece_def addText_def ev_add_object ev_handleClearBoard ev_handleDeleteSelected
        ev_image_loaded user_select_def Let_def ev_user_modify ev_loadFromJSON evolves.same)

lemma ev_run: "evolves (historyRef s) (historyRef (run evs s))"
  unfolding run_def using ev_fold[of step s evs, OF ev_step] .

lemma commit_length: "1 \<le> length (commit j h)" "length h \<le> 50 \<Longrightarrow> length (commit j h) \<le> 50"
  by (cases h; simp add: commit_def Let_def)+

lemma evolves_bounds:
  "evolves h h' \<Longrightarrow> 1 \<le> length h \<and> length h \<le> 50 \<Longrightarrow> 1 \<le> length h' \<and> length h' \<le> 50"
proof (induction rule: evolves.induct)
  case (same h)
  then show ?case .
next
  case (push h h' json)
  then show ?case using commit_length[where j = json and h = h'] by simp
next
  case (pop h h')
  then show ?case by auto
qed

lemma historyRef_initial: "historyRef (initial w h) = [[]]"
  by (simp add: initial_def saveHistory_eq unmounted_def commit_def toJSON_def)

lemma reachable_bounds:
  "1 \<le> length (historyRef (run evs (initial w h))) \<and> length (historyRef (run evs (initial w h))) \<le> 50"
  by (rule evolves_bounds[OF ev_run]) (simp add: historyRef_initial)

text \<open>Evaluation of the handlers on concrete event sequences.\<close>

lemmas run_simps = run_def addPiece_def addText_def add_object_def canvas_add_def canvas_remove_def
  on_object_added_def on_object_removed_def on_object_modified_def saveHistory_def handleUndo_def
  loadFromJSON_def insert_restored_def enliven_def toJSON_def initial_def unmounted_def setTool_def
  tool_effect_def view_center_def toUpperCase_def Let_def key_delete_def handleDeleteSelected_def
  user_select_def mouse_down_def mouse_move_def mouse_up_def new_preview_def finalize_def
  key_escape_def image_loaded_def is_image_def handleClearBoard_def user_modify_def
  clear_canvas_def initial_clear_fires_def


section \<open>Identities and references in reachable states\<close>

lemma wf_saveHistory [simp]: "wf_state (saveHistory ip s) = wf_state s"
  by (simp add: saveHistory_eq wf_state_def)

lemma wf_on_object_added [simp]: "wf_state (on_object_added s) = wf_state s"
  by (simp add: on_object_added_def)

lemma wf_on_object_removed [simp]: "wf_state (on_object_removed s) = wf_state s"
  by (simp add: on_object_removed_def)

lemma wf_on_object_modified [simp]: "wf_state (on_object_modified s) = wf_state s"
  by (simp add: on_object_modified_def)

lemma frame_saveHistory [simp]:
  "canvas (saveHistory ip s) = canvas s" "nextId (saveHistory ip s) = nextId s"
  "active (saveHistory ip s) = active s" "tempArrowRef (saveHistory ip s) = tempArrowRef s"
  "isDrawingRef (saveHistory ip s) = isDrawingRef s" "hasCanvas (saveHistory ip s) = hasCanvas s"
  "toolRef (saveHistory ip s) = toolRef s" "isPanning (saveHistory ip s) = isPanning s"
  "arrowStartRef (saveHistory ip s) = arrowStartRef s" "colorRef (saveHistory ip s) = colorRef s"
  "thicknessRef (saveHistory ip s) = thicknessRef s" "editing (saveHistory ip s) = editing s"
  "isProcessing (saveHistory ip s) = isProcessing s" "loading (saveHistory ip s) = loading s"
  by (simp_all add: saveHistory_eq)

lemma frame_canvas_remove [simp]:
  "canvas (canvas_remove k s) = filter (\<lambda>ob. oid ob \<noteq> k) (canvas s)"
  "nextId (canvas_remove k s) = nextId s"
  "tempArrowRef (canvas_remove k s) = tempArrowRef s"
  "isDrawingRef (canvas_remove k s) = isDrawingRef s"
  "hasCanvas (canvas_remove k s) = hasCanvas s"
  "toolRef (canvas_remove k s) = toolRef s"
  "isPanning (canvas_remove k s) = isPanning s"
  "arrowStartRef (canvas_remove k s) = arrowStartRef s"
  "colorRef (canvas_remove k s) = colorRef s"
  "thicknessRef (canvas_remove k s) = thicknessRef s"
  "isProcessing (canvas_remove k s) = isProcessing s"
  "loading (canvas_remove k s) = loading s"
proof -
  have "k \<notin> set (map oid (canvas s)) \<Longrightarrow> filter (\<lambda>ob. oid ob \<noteq> k) (canvas s) = canvas s"
    by (induction "canvas s") (auto simp add: filter_id_conv)
  then show "canvas (canvas_remove k s) = filter (\<lambda>ob. oid ob \<noteq> k) (canvas s)"
    by (auto simp add: canvas_remove_def on_object_removed_def)
qed (simp_all add: canvas_remove_def on_object_removed_def)

lemma frame_canvas_add [simp]:
  "canvas (canvas_add ob s) = canvas s @ [ob]"
  "nextId (canvas_add ob s) = nextId s"
  "active (canvas_add ob s) = active s"
  "tempArrowRef (canvas_add ob s) = tempArrowRef s"
  "isDrawingRef (canvas_add ob s) = isDrawingRef s"
  "hasCanvas (canvas_add ob s) = hasCanvas s"
  "toolRef (canvas_add ob s) = toolRef s"
  "isPanning (canvas_add ob s) = isPanning s"
  "arrowStartRef (canvas_add ob s) = arrowStartRef s"
  "colorRef (canvas_add ob s) = colorRef s"
  "thicknessRef (canvas_add ob s) = thicknessRef s"
  "isProcessing (canvas_add ob s) = isProcessing s"
  "loading (canvas_add ob s) = loading s"
  "editing (canvas_add ob s) = editing s"
  by (simp_all add: canvas_add_def on_object_added_def)

lemma active_canvas_remove:
  "set (active (canvas_remove k s)) \<subseteq> set (active s)"
  "distinct (active s) \<Longrightarrow> distinct (active (canvas_remove k s))"
  "set (active s) \<subseteq> set (map oid (canvas s)) \<Longrightarrow>
     set (active (canvas_remove k s)) \<subseteq> set (map oid (canvas (canvas_remove k s)))"
  by (auto simp add: canvas_remove_def on_object_removed_def distinct_removeAll)

lemma wf_canvas_remove: "wf_state s \<Longrightarrow> wf_state (canvas_remove k s)"
  using active_canvas_remove[where k = k and s = s] by (simp add: wf_state_def)

lemma wf_fold:
  assumes "\<And>x s. wf_state s \<Longrightarrow> wf_state (f x s)"
  shows "wf_state s \<Longrightarrow> wf_state (fold f xs s)"
  by (induction xs arbitrary: s) (simp_all add: assms)

lemma wf_add_fresh:
  assumes "wf_state s" "oid ob = nextId s"
  shows "wf_state (canvas_add ob (s\<lparr>nextId := Suc (nextId s)\<rparr>))"
  using assms by (auto simp add: wf_state_def less_Suc_eq)

lemma wf_insert_restored: "wf_state s \<Longrightarrow> wf_state (insert_restored j s)"
  by (simp add: insert_restored_def wf_add_fresh enliven_def)

lemma wf_clear_canvas: "wf_state s \<Longrightarrow> wf_state (clear_canvas s)"
proof (cases "clearFiresRemoved s")
  case True
  assume "wf_state s"
  then have "wf_state (s\<lparr>active := [], editing := False\<rparr>)"
    by (simp add: wf_state_def)
  then have "wf_state (fold canvas_remove (map oid (canvas s)) (s\<lparr>active := [], editing := False\<rparr>))"
    using wf_fold[of canvas_remove, OF wf_canvas_remove] by blast
  with True show ?thesis by (simp add: clear_canvas_def Let_def)
next
  case False
  then show "wf_state s \<Longrightarrow> ?thesis" by (simp add: clear_canvas_def Let_def wf_state_def)
qed

lemma wf_loadFromJSON: "wf_state s \<Longrightarrow> wf_state (loadFromJSON s)"
proof (cases "loading s")
  case Nil
  then show "wf_state s \<Longrightarrow> ?thesis" by (simp add: loadFromJSON_def)
next
  case (Cons snap rest)
  assume "wf_state s"
  then have "wf_state (s\<lparr>loading := rest\<rparr>)"
    by (simp add: wf_state_def)
  then have "wf_state (clear_canvas (s\<lparr>loading := rest\<rparr>))"
    by (rule wf_clear_canvas)
  then have "wf_state (fold insert_restored snap (clear_canvas (s\<lparr>loading := rest\<rparr>)))"
    using wf_fold[of insert_restored, OF wf_insert_restored] by blast
  then show ?thesis by (simp add: loadFromJSON_def Cons Let_def wf_state_def)
qed

lemma wf_handleUndo: "wf_state s \<Longrightarrow> wf_state (handleUndo s)"
  by (simp add: handleUndo_def Let_def wf_state_def)

lemma wf_tool_effect: "wf_state s \<Longrightarrow> wf_state (tool_effect s)"
  by (auto simp add: tool_effect_def wf_state_def image_image)

lemma wf_setTool: "wf_state s \<Longrightarrow> wf_state (setTool t s)"
  using wf_tool_effect[of "s\<lparr>toolRef := t\<rparr>"] by (simp add: setTool_def wf_state_def)

lemma wf_mouse_down: "wf_state s \<Longrightarrow> wf_state (mouse_down a b cx cy p s)"
  by (simp add: mouse_down_def wf_state_def)

lemma wf_case_remove:
  "wf_state s \<Longrightarrow> wf_state (case t of Some k \<Rightarrow> canvas_remove k s | None \<Rightarrow> s)"
  by (cases t) (simp_all add: wf_canvas_remove)

lemma frame_case_remove [simp]:
  "nextId (case t of Some k \<Rightarrow> canvas_remove k s | None \<Rightarrow> s) = nextId s"
  "isDrawingRef (case t of Some k \<Rightarrow> canvas_remove k s | None \<Rightarrow> s) = isDrawingRef s"
  "colorRef (case t of Some k \<Rightarrow> canvas_remove k s | None \<Rightarrow> s) = colorRef s"
  "hasCanvas (case t of Some k \<Rightarrow> canvas_remove k s | None \<Rightarrow> s) = hasCanvas s"
  by (cases t; simp)+

lemma wf_mouse_move: "wf_state s \<Longrightarrow> wf_state (mouse_move cx cy p s)"
proof -
  assume wf: "wf_state s"
  let ?s1 = "case tempArrowRef s of Some k \<Rightarrow> canvas_remove k s | None \<Rightarrow> s"
  have w1: "wf_state ?s1" using wf by (rule wf_case_remove)
  have pan: "wf_state (s\<lparr>vpt_x := a, vpt_y := b, lastPosX := c, lastPosY := d\<rparr>)" for a b c d
    using wf by (simp add: wf_state_def)
  have add: "isDrawingRef s \<Longrightarrow>
     wf_state (canvas_add (new_preview (nextId ?s1) ps col)
                (?s1\<lparr>tempArrowRef := Some (nextId ?s1), nextId := Suc (nextId ?s1)\<rparr>))" for ps col
    using w1 by (auto simp add: wf_state_def new_preview_def less_Suc_eq)
  show ?thesis
    using wf w1 pan add by (simp add: mouse_move_def Let_def)
qed

lemma oid_finalize [simp]: "oid (finalize k ob) = oid ob"
  by (simp add: finalize_def)

lemma wf_mouse_up: "wf_state s \<Longrightarrow> wf_state (mouse_up s)"
  by (auto simp add: mouse_up_def Let_def saveHistory_eq wf_state_def image_image split: option.split)

lemma wf_handleDeleteSelected: "wf_state s \<Longrightarrow> wf_state (handleDeleteSelected s)"
proof -
  assume wf: "wf_state s"
  then have "wf_state (s\<lparr>active := [], editing := False\<rparr>)" by (simp add: wf_state_def)
  then have "wf_state (fold canvas_remove (active s) (s\<lparr>active := [], editing := False\<rparr>))"
    using wf_fold[of canvas_remove, OF wf_canvas_remove] by blast
  with wf show ?thesis by (simp add: handleDeleteSelected_def Let_def)
qed

lemma wf_key_delete: "wf_state s \<Longrightarrow> wf_state (key_delete s)"
  by (simp add: key_delete_def wf_handleDeleteSelected)

lemma wf_key_escape: "wf_state s \<Longrightarrow> wf_state (key_escape s)"
proof -
  assume wf: "wf_state s"
  let ?s1 = "case tempArrowRef s of Some k \<Rightarrow> canvas_remove k s | None \<Rightarrow> s"
  have "wf_state ?s1" using wf by (rule wf_case_remove)
  then have "wf_state (?s1\<lparr>isDrawingRef := False, tempArrowRef := None\<rparr>)"
    by (simp add: wf_state_def)
  with wf show ?thesis by (simp add: key_escape_def Let_def wf_setTool)
qed

lemma wf_add_object: "wf_state s \<Longrightarrow> wf_state (add_object sh c s)"
proof -
  assume wf: "wf_state s"
  let ?ob = "\<lparr>oid = nextId s, shape = sh, fill = c, opacity = 1, selectable = True, evented = True\<rparr>"
  have "wf_state (canvas_add ?ob (s\<lparr>nextId := Suc (nextId s)\<rparr>))"
    using wf by (intro wf_add_fresh) simp_all
  then have "wf_state (canvas_add ?ob (s\<lparr>nextId := Suc (nextId s)\<rparr>)\<lparr>active := [nextId s], editing := False\<rparr>)"
    by (simp add: wf_state_def)
  then have "wf_state (setTool Select (saveHistory ip
       (canvas_add ?ob (s\<lparr>nextId := Suc (nextId s)\<rparr>)\<lparr>active := [nextId s], editing := False\<rparr>)))" for ip
    by (intro wf_setTool) simp
  with wf show ?thesis by (simp add: add_object_def Let_def wf_state_def)
qed

lemma wf_handleClearBoard: "wf_state s \<Longrightarrow> wf_state (handleClearBoard s)"
  using wf_clear_canvas[of s] by (simp add: handleClearBoard_def Let_def wf_state_def)

lemma wf_user_select: "wf_state s \<Longrightarrow> wf_state (user_select ks ed s)"
  by (auto simp add: user_select_def Let_def wf_state_def)

lemma wf_canvas_cong:
  assumes "wf_state s" "set (map oid c') = set (map oid (canvas s))"
  shows "wf_state (s\<lparr>canvas := c'\<rparr>)"
proof -
  have b: "(\<forall>ob \<in> set c. oid ob < n) = (\<forall>k \<in> oid ` set c. k < n)" for c :: "fobject list" and n
    by auto
  from assms have "\<forall>k \<in> oid ` set c'. k < nextId s"
    unfolding wf_state_def b by simp
  then have "\<forall>ob \<in> set c'. oid ob < nextId s" by (simp only: b)
  then show ?thesis using assms unfolding wf_state_def by simp
qed

lemma wf_user_modify: "wf_state s \<Longrightarrow> wf_state (user_modify k sh s)"
proof (cases "k \<in> set (map oid (canvas s))")
  case False
  then show "wf_state s \<Longrightarrow> ?thesis" by (simp add: user_modify_def)
next
  case True
  have m: "map oid (map (\<lambda>ob. if oid ob = k then ob\<lparr>shape := sh\<rparr> else ob) c) = map oid c"
    for c :: "fobject list"
    by (induction c) auto
  assume "wf_state s"
  then have "wf_state (s\<lparr>canvas := map (\<lambda>ob. if oid ob = k then ob\<lparr>shape := sh\<rparr> else ob) (canvas s)\<rparr>)"
    by (rule wf_canvas_cong) (simp only: m)
  with True show ?thesis by (simp add: user_modify_def)
qed

lemma canvas_fold_remove_images:
  "set (canvas (fold (\<lambda>ob st. if is_image ob then canvas_remove (oid ob) st else st) obs s)) \<subseteq> set (canvas s)
   \<and> nextId (fold (\<lambda>ob st. if is_image ob then canvas_remove (oid ob) st else st) obs s) = nextId s"
  by (induction obs arbitrary: s) (auto, force)

lemma wf_image_loaded: "wf_state s \<Longrightarrow> wf_state (image_loaded data iw ih s)"
proof -
  assume wf: "wf_state s"
  let ?f = "\<lambda>ob st. if is_image ob then canvas_remove (oid ob) st else st"
  let ?s1 = "s\<lparr>vpt_zoom := 1, vpt_x := 0, vpt_y := 0, nextId := Suc (nextId s)\<rparr>"
  define s2 where "s2 = fold ?f (canvas s) ?s1"
  have w1: "wf_state ?s1" using wf by (auto simp add: wf_state_def less_Suc_eq)
  have w2: "wf_state s2"
    unfolding s2_def using wf_fold[of ?f, OF _ w1] by (simp add: wf_canvas_remove)
  have sub: "set (canvas s2) \<subseteq> set (canvas s)" and nid: "nextId s2 = Suc (nextId s)"
    unfolding s2_def using canvas_fold_remove_images[of "canvas s" ?s1] by simp_all
  have old: "\<forall>ob \<in> set (canvas s2). oid ob < nextId s"
    using sub wf by (auto simp add: wf_state_def)
  have key: "wf_state ((canvas_add img s2)\<lparr>canvas := cv\<rparr>)"
    if "oid img = nextId s" "set cv = set (canvas s2 @ [img])" for img cv
    using w2 old nid that by (auto simp add: wf_state_def)
  have hc: "hasCanvas s" using wf by (simp add: wf_state_def)
  show ?thesis
    unfolding image_loaded_def Let_def
    by (simp add: hc s2_def[symmetric], rule key) auto
qed

lemma wf_step: "wf_state s \<Longrightarrow> wf_state (step e s)"
  by (cases e)
     (simp_all add: wf_mouse_down wf_mouse_move wf_mouse_up wf_key_delete wf_handleUndo
        wf_key_escape wf_setTool addPiece_def addText_def wf_add_object wf_handleClearBoard
        wf_handleDeleteSelected wf_image_loaded wf_user_select wf_user_modify wf_loadFromJSON,
      simp_all add: wf_state_def mouse_wheel_def zoomToPoint_def Let_def)

lemma wf_initial: "wf_state (initial w h)"
  by (simp add: initial_def) (simp add: wf_state_def unmounted_def)

lemma wf_run: "wf_state (run evs (initial w h))"
  unfolding run_def using wf_fold[of step, OF wf_step wf_initial] .


section \<open>The bounded history\<close>

text \<open>
  Claim C1. In every state reached from the initialised engine (whose stack holds exactly
  the snapshot of the base scene) by any sequence of events, the history stack holds
  between 1 and 50 entries. A commit on a stack of 50 entries leaves 50 entries, and when
  it appends (the scene differs from the top) the result is the old stack without its
  oldest entry, followed by the new snapshot. Undo leaves at least one entry, and on a
  stack of one entry it leaves the stack as it is.
\<close>

theorem C1_history_bounds:
  assumes s: "s = run evs (initial w h)"
  shows "historyRef (initial w h) = [toJSON []] \<and>
         1 \<le> length (historyRef s) \<and> length (historyRef s) \<le> 50 \<and>
         (length (historyRef s) = 50 \<longrightarrow>
            length (historyRef (saveHistory ip s)) = 50 \<and>
            (\<not> ip \<and> last (historyRef s) \<noteq> toJSON (canvas s) \<longrightarrow>
               historyRef (saveHistory ip s) = tl (historyRef s) @ [toJSON (canvas s)])) \<and>
         1 \<le> length (historyRef (handleUndo s)) \<and>
         (length (historyRef s) = 1 \<longrightarrow> historyRef (handleUndo s) = historyRef s)"
proof -
  have b: "1 \<le> length (historyRef s) \<and> length (historyRef s) \<le> 50"
    unfolding s by (rule reachable_bounds)
  have u: "1 \<le> length (historyRef (handleUndo s))"
    using b by (auto simp add: handleUndo_def Let_def)
  have e: "length (historyRef s) = 50 \<Longrightarrow> length (historyRef (saveHistory ip s)) = 50"
    by (simp add: saveHistory_eq commit_def Let_def)
  have hc: "hasCanvas s"
    using wf_run[of evs w h] unfolding s by (simp add: wf_state_def)
  have f: "length (historyRef s) = 50 \<Longrightarrow> \<not> ip \<and> last (historyRef s) \<noteq> toJSON (canvas s) \<Longrightarrow>
           historyRef (saveHistory ip s) = tl (historyRef s) @ [toJSON (canvas s)]"
    using hc by (cases "historyRef s") (simp_all add: saveHistory_eq commit_def Let_def)
  have g: "length (historyRef s) = 1 \<Longrightarrow> historyRef (handleUndo s) = historyRef s"
    by (simp add: handleUndo_def)
  have i: "historyRef (initial w h) = [toJSON []]"
    by (simp add: historyRef_initial toJSON_def)
  from i b u e f g show ?thesis by blast
qed

theorem C1_history_bounds_witness:
  "length (historyRef (run [AddPiece, AddPiece, KeyUndo] (initial 800 600))) = 2 \<and>
   length (historyRef (handleUndo (run [] (initial 800 600)))) = 1 \<and>
   length (historyRef (run full_stack_events (initial 800 600))) = 50 \<and>
   historyRef (saveHistory False (run full_stack_events (initial 800 600))) =
     tl (historyRef (run full_stack_events (initial 800 600)))
       @ [toJSON (canvas (run full_stack_events (initial 800 600)))]"
proof -
  have a: "length (historyRef (run [AddPiece, AddPiece, KeyUndo] (initial 800 600))) = 2"
    by (simp add: run_simps)
  have b: "length (historyRef (run [] (initial 800 600))) = 1"
    by (simp add: run_simps)
  have "full_unsaved (run full_stack_events (initial 800 600))"
    by (simp add: full_stack_events_def run_simps upt_rec example_paths full_unsaved_def)
  then have c: "length (historyRef (run full_stack_events (initial 800 600))) = 50 \<and>
           last (historyRef (run full_stack_events (initial 800 600)))
             \<noteq> toJSON (canvas (run full_stack_events (initial 800 600)))"
    unfolding full_unsaved_def .
  from C1_history_bounds[OF refl, where evs = "[]" and w = 800 and h = 600 and ip = False] b
  have d: "length (historyRef (handleUndo (run [] (initial 800 600)))) = 1" by simp
  from C1_history_bounds[OF refl, where evs = full_stack_events and w = 800 and h = 600 and ip = False] c
  have e: "historyRef (saveHistory False (run full_stack_events (initial 800 600))) =
     tl (historyRef (run full_stack_events (initial 800 600)))
       @ [toJSON (canvas (run full_stack_events (initial 800 600)))]"
    by simp
  from a c d e C1_history_bounds[OF refl, where evs = "[AddPiece, AddPiece, KeyUndo]" and w = 800 and h = 600 and ip = False]
  show ?thesis by simp
qed


section \<open>Deduplication of consecutive snapshots\<close>

lemma distinct_adj_commit: "distinct_adj h \<Longrightarrow> distinct_adj (commit j h)"
proof -
  assume d: "distinct_adj h"
  have tl: "distinct_adj xs \<Longrightarrow> distinct_adj (tl xs)" for xs :: "snapshot list"
    by (cases xs) (auto dest: distinct_adj_ConsD)
  have "h = [] \<or> last h \<noteq> j \<Longrightarrow> distinct_adj (h @ [j])"
    using d by (auto simp add: distinct_adj_append_iff)
  then show ?thesis using d tl[of "h @ [j]"] by (auto simp add: commit_def Let_def)
qed

lemma distinct_adj_butlast: "distinct_adj h \<Longrightarrow> distinct_adj (butlast h)"
proof (cases "h = []")
  case True
  then show ?thesis by simp
next
  case False
  assume "distinct_adj h"
  then have "distinct_adj (butlast h @ [last h])" using False by simp
  then show ?thesis by (rule distinct_adj_appendD1)
qed

lemma evolves_distinct_adj: "evolves h h' \<Longrightarrow> distinct_adj h \<Longrightarrow> distinct_adj h'"
  by (induction rule: evolves.induct) (simp_all add: distinct_adj_commit distinct_adj_butlast)

lemma commit_last: "last (commit j h) = j" "commit j h \<noteq> []"
  by (cases h; cases "tl h"; auto simp add: commit_def Let_def)+

lemma commit_idem: "commit j (commit j h) = commit j h"
  using commit_last[of j h] by (subst (1) commit_def) simp

text \<open>
  Claim C5. In every reachable state no two neighbouring entries of the stack are equal;
  a commit of a scene whose snapshot is the top of the stack leaves the state as it is;
  and a commit repeated on an unchanged scene does nothing the second time.
\<close>

theorem C5_commit_dedup:
  assumes s: "s = run evs (initial w h)"
  shows "distinct_adj (historyRef s) \<and>
         (last (historyRef s) = toJSON (canvas s) \<longrightarrow> saveHistory ip s = s) \<and>
         saveHistory ip (saveHistory ip s) = saveHistory ip s"
proof -
  have d: "distinct_adj (historyRef s)"
    unfolding s by (rule evolves_distinct_adj[OF ev_run]) (simp add: historyRef_initial)
  have ne: "historyRef s \<noteq> []"
    using reachable_bounds[of evs w h] unfolding s by auto
  have a: "last (historyRef s) = toJSON (canvas s) \<Longrightarrow> saveHistory ip s = s"
    using ne by (simp add: saveHistory_def)
  have b: "saveHistory ip (saveHistory ip s) = saveHistory ip s"
    by (simp add: saveHistory_eq commit_idem)
  from d a b show ?thesis by blast
qed

theorem C5_commit_dedup_witness:
  "distinct_adj (historyRef (run [AddPiece, AddText] (initial 800 600))) \<and>
   length (historyRef (run [AddPiece, AddText] (initial 800 600))) = 3 \<and>
   saveHistory False (run [AddPiece, AddText] (initial 800 600)) = run [AddPiece, AddText] (initial 800 600)"
proof -
  have l: "last (historyRef (run [AddPiece, AddText] (initial 800 600)))
           = toJSON (canvas (run [AddPiece, AddText] (initial 800 600)))"
    by (simp add: run_simps)
  have n: "length (historyRef (run [AddPiece, AddText] (initial 800 600))) = 3"
    by (simp add: run_simps)
  from C5_commit_dedup[OF refl, where evs = "[AddPiece, AddText]" and w = 800 and h = 600 and ip = False] l n
  show ?thesis by simp
qed


section \<open>Undo\<close>

text \<open>
  Claim C6. On a stack of one entry undo changes nothing. On a longer stack it does not
  leave the stack one entry shorter. Three units are placed: the stack holds the base
  scene and the scenes with one, two and three units. One undo (the pop and the load of
  the new top, which holds no image, so the load runs at once) leaves the scene with two
  units, as it should, but a stack of 5 entries where 3 are expected: while the load
  re-inserts the objects, every \<open>object:added\<close> commits a snapshot through the
  subscription of line 178, whose \<open>saveHistory\<close> is the closure of the first render and
  so never sees \<open>isProcessing = true\<close>. A second undo leaves 4 entries and one unit, a
  third 5 entries and two units again: repeated undo moves between these two scenes and
  does not come back to the base scene. With a library whose \<open>clear\<close> fires
  \<open>object:removed\<close> the first undo leaves 7 entries.
\<close>

theorem C6_undo_grows_stack:
  "run [KeyUndo] (initial 800 600) = initial 800 600 \<and>
   run [KeyUndo, KeyUndo] (initial 800 600) = initial 800 600 \<and>
   length (historyRef three_units) = 4 \<and> length (canvas three_units) = 3 \<and>
   length (historyRef (run undo_once three_units)) = 5 \<and>
   historyRef (run undo_once three_units) \<noteq> butlast (historyRef three_units) \<and>
   toJSON (canvas (run undo_once three_units)) = last (butlast (historyRef three_units)) \<and>
   loading (run undo_once three_units) = [] \<and> \<not> isProcessing (run undo_once three_units) \<and>
   length (historyRef (run (undo_once @ undo_once) three_units)) = 4 \<and>
   length (canvas (run (undo_once @ undo_once) three_units)) = 1 \<and>
   length (historyRef (run (undo_once @ undo_once @ undo_once) three_units)) = 5 \<and>
   length (canvas (run (undo_once @ undo_once @ undo_once) three_units)) = 2 \<and>
   length (historyRef three_units_clear_fires) = 4 \<and>
   length (historyRef (run undo_once three_units_clear_fires)) = 7"
  by (simp add: three_units_def three_units_clear_fires_def undo_once_def run_simps)


section \<open>Wheel zoom\<close>

text \<open>
  Claim C9. After a wheel event with raw delta \<open>d\<close> the zoom is the old zoom times
  \<open>0.999\<close> to the power \<open>d\<close>, clamped into \<open>[0.1, 20]\<close>: a value above 20 becomes 20, a
  value below 0.1 becomes 0.1, and a value in range is kept. The handler has no failing
  branch: it is a total function of the state and the event.
\<close>

theorem C9_wheel_zoom:
  "vpt_zoom (mouse_wheel d ox oy s) = max 0.1 (min 20 (vpt_zoom s * 0.999 powr d)) \<and>
   0.1 \<le> vpt_zoom (mouse_wheel d ox oy s) \<and> vpt_zoom (mouse_wheel d ox oy s) \<le> 20 \<and>
   (20 < vpt_zoom s * 0.999 powr d \<longrightarrow> vpt_zoom (mouse_wheel d ox oy s) = 20) \<and>
   (vpt_zoom s * 0.999 powr d < 0.1 \<longrightarrow> vpt_zoom (mouse_wheel d ox oy s) = 0.1) \<and>
   (0.1 \<le> vpt_zoom s * 0.999 powr d \<and> vpt_zoom s * 0.999 powr d \<le> 20 \<longrightarrow>
      vpt_zoom (mouse_wheel d ox oy s) = vpt_zoom s * 0.999 powr d)"
  by (auto simp add: mouse_wheel_def zoomToPoint_def Let_def)

theorem C9_wheel_zoom_witness:
  "vpt_zoom (mouse_wheel 0 5 5 (initial 800 600)) = 1 \<and>
   vpt_zoom (mouse_wheel (- 1) 5 5 (initial 800 600\<lparr>vpt_zoom := 20\<rparr>)) = 20 \<and>
   vpt_zoom (mouse_wheel 1 5 5 (initial 800 600\<lparr>vpt_zoom := 0.1\<rparr>)) = 0.1"
proof -
  have z: "vpt_zoom (initial 800 600) = 1" by (simp add: run_simps)
  have a: "(20::real) < 20 * 0.999 powr (- 1)" by (simp add: powr_minus_divide)
  have b: "(0.1::real) * 0.999 powr 1 < 0.1" by simp
  from C9_wheel_zoom[of 0 5 5 "initial 800 600"] z
  have 1: "vpt_zoom (mouse_wheel 0 5 5 (initial 800 600)) = 1" by simp
  from C9_wheel_zoom[of "- 1" 5 5 "initial 800 600\<lparr>vpt_zoom := 20\<rparr>"] a
  have 2: "vpt_zoom (mouse_wheel (- 1) 5 5 (initial 800 600\<lparr>vpt_zoom := 20\<rparr>)) = 20" by simp
  from C9_wheel_zoom[of 1 5 5 "initial 800 600\<lparr>vpt_zoom := 0.1\<rparr>"] b
  have 3: "vpt_zoom (mouse_wheel 1 5 5 (initial 800 600\<lparr>vpt_zoom := 0.1\<rparr>)) = 0.1" by simp
  from 1 2 3 show ?thesis by simp
qed


section \<open>The arrow-drawing gesture\<close>

lemma historyRef_canvas_remove:
  "historyRef (canvas_remove k s) =
     (if k \<in> set (map oid (canvas s)) \<and> hasCanvas s
      then commit (toJSON (filter (\<lambda>ob. oid ob \<noteq> k) (canvas s))) (historyRef s)
      else historyRef s)"
  by (simp add: canvas_remove_def on_object_removed_def saveHistory_eq)

lemma cap_lastn:
  assumes "length h \<le> 50"
  shows "(if length (h @ [j]) > 50 then tl (h @ [j]) else h @ [j]) = lastn 50 (h @ [j])"
proof (cases "length h = 50")
  case True
  then have "length (h @ [j]) - 50 = Suc 0" by simp
  then have "lastn 50 (h @ [j]) = tl (h @ [j])"
    unfolding lastn_def by (simp only: drop_Suc drop_0)
  with True show ?thesis by simp
next
  case False
  with assms have "length (h @ [j]) - 50 = 0" by simp
  then have "lastn 50 (h @ [j]) = h @ [j]" unfolding lastn_def by simp
  with False assms show ?thesis by simp
qed

lemma commit_new:
  "length h \<le> 50 \<Longrightarrow> h = [] \<or> last h \<noteq> j \<Longrightarrow> commit j h = lastn 50 (h @ [j])"
  using cap_lastn[of h j] by (auto simp add: commit_def Let_def)

lemma frame_case_remove2 [simp]:
  "toolRef (case t of Some k \<Rightarrow> canvas_remove k s | None \<Rightarrow> s) = toolRef s"
  "isPanning (case t of Some k \<Rightarrow> canvas_remove k s | None \<Rightarrow> s) = isPanning s"
  "arrowStartRef (case t of Some k \<Rightarrow> canvas_remove k s | None \<Rightarrow> s) = arrowStartRef s"
  "tempArrowRef (case t of Some k \<Rightarrow> canvas_remove k s | None \<Rightarrow> s) = tempArrowRef s"
  "thicknessRef (case t of Some k \<Rightarrow> canvas_remove k s | None \<Rightarrow> s) = thicknessRef s"
  by (cases t; simp)+

text \<open>
  Claim C4. A drag with the arrow tool can commit more than one snapshot, and can commit
  during a move. In \<open>one_arrow\<close> an arrow has been drawn and the arrow tool is still
  selected: nothing is pending, the top of the stack is the current scene, and the arrow
  is selectable and evented, as \<open>mouse:up\<close> (lines 269-279) has left it; the tool effect
  of lines 135-151, which would lock it, runs only when the tool changes. A second drag
  that starts on that arrow draws a new arrow and also moves the first one; on release
  the library fires \<open>object:modified\<close>, whose handler (line 179) commits the scene with
  the moved arrow and the preview still in it, and then \<open>mouse:up\<close> commits the
  finalized arrow: two snapshots for one gesture. Independently, the handler of
  \<open>object:removed\<close> (line 180) does not test \<open>isDrawingRef\<close>, as the handler of
  \<open>object:added\<close> does, so every replacement of a preview calls \<open>saveHistory\<close>, which
  appends whenever the scene without the preview differs from the top: in
  \<open>undo_pending\<close>, where Ctrl+Z was pressed and the load of the map has not run yet, the
  second move of the drag appends a snapshot.
\<close>

theorem C4_gesture_commits_twice:
  "toolRef one_arrow = Arrow \<and> \<not> isDrawingRef one_arrow \<and> \<not> isPanning one_arrow \<and>
   loading one_arrow = [] \<and> \<not> isProcessing one_arrow \<and>
   last (historyRef one_arrow) = toJSON (canvas one_arrow) \<and>
   map oid (canvas one_arrow) = [0] \<and>
   map selectable (canvas one_arrow) = [True] \<and> map evented (canvas one_arrow) = [True] \<and>
   length (historyRef one_arrow) = 2 \<and>
   length (historyRef (run [MouseDown False 0 50 0 (50, 0), MouseMove 150 0 (150, 0)] one_arrow)) = 2 \<and>
   length (historyRef (run [MouseDown False 0 50 0 (50, 0), MouseMove 150 0 (150, 0),
                            UserModify 0 (PathShape (generateArrowPath 100 0 200 0 6))] one_arrow)) = 3 \<and>
   length (historyRef (run [MouseDown False 0 50 0 (50, 0), MouseMove 150 0 (150, 0),
                            UserModify 0 (PathShape (generateArrowPath 100 0 200 0 6)),
                            MouseUp] one_arrow)) = 4 \<and>
   length (canvas (run [MouseDown False 0 50 0 (50, 0), MouseMove 150 0 (150, 0),
                        UserModify 0 (PathShape (generateArrowPath 100 0 200 0 6)),
                        MouseUp] one_arrow)) = 2 \<and>
   toolRef undo_pending = Arrow \<and> \<not> isDrawingRef undo_pending \<and> \<not> isPanning undo_pending \<and>
   length (historyRef undo_pending) = 2 \<and>
   length (historyRef (run [MouseDown False 0 0 0 (0, 0), MouseMove 100 0 (100, 0)] undo_pending)) = 2 \<and>
   length (historyRef (run [MouseDown False 0 0 0 (0, 0), MouseMove 100 0 (100, 0),
                            MouseMove 120 0 (120, 0)] undo_pending)) = 3"
  by (simp add: one_arrow_def arrow_ready_def undo_pending_def run_simps example_paths)


section \<open>Arrow style during a gesture\<close>

lemma mouse_move_preview:
  assumes "\<not> isPanning s" "toolRef s = Arrow" "isDrawingRef s" "arrowStartRef s = Some (sx, sy)"
    and "generateArrowPath sx sy px py (thicknessRef s) \<noteq> []"
  shows "last (canvas (mouse_move cx cy (px, py) s)) =
           new_preview (nextId s) (generateArrowPath sx sy px py (thicknessRef s)) (colorRef s)"
    and "tempArrowRef (mouse_move cx cy (px, py) s) = Some (nextId s)"
  using assms by (simp_all add: mouse_move_def Let_def)

lemma mouse_up_keeps_style:
  "map shape (canvas (mouse_up s)) = map shape (canvas s)"
  "map fill (canvas (mouse_up s)) = map fill (canvas s)"
proof -
  have f: "shape (finalize k ob) = shape ob" "fill (finalize k ob) = fill ob" for k ob
    by (simp_all add: finalize_def)
  show "map shape (canvas (mouse_up s)) = map shape (canvas s)"
    by (simp add: mouse_up_def Let_def f split: option.split)
  show "map fill (canvas (mouse_up s)) = map fill (canvas s)"
    by (simp add: mouse_up_def Let_def f split: option.split)
qed

lemma mouse_up_ignores_style:
  "canvas (mouse_up (s\<lparr>thicknessRef := v, colorRef := c\<rparr>)) = canvas (mouse_up s)"
  by (simp add: mouse_up_def Let_def saveHistory_eq split: option.split)

text \<open>
  Claim C7, as amended. Nothing is recorded at pointer-down: the thickness and the fill
  colour are read from \<open>thicknessRef\<close> and \<open>colorRef\<close> at every pointer-move. In a drawing
  gesture, after the controls are set to thickness \<open>v\<close> and colour \<open>c\<close>, the next move
  that yields an outline puts on the canvas a preview built from \<open>v\<close> and \<open>c\<close>.
  Pointer-up keeps the geometry and the colour of every object and does not read the
  controls, so the finalized arrow has the style that was current at the last move.
\<close>

theorem C7_style_read_at_each_move:
  assumes "\<not> isPanning s" "toolRef s = Arrow" "isDrawingRef s" "arrowStartRef s = Some (sx, sy)"
    and "generateArrowPath sx sy px py v \<noteq> []"
  shows "last (canvas (run [SetArrowThickness v, SetPieceColor c, MouseMove cx cy (px, py)] s)) =
           new_preview (nextId s) (generateArrowPath sx sy px py v) c \<and>
         tempArrowRef (run [SetArrowThickness v, SetPieceColor c, MouseMove cx cy (px, py)] s)
           = Some (nextId s) \<and>
         map shape (canvas (step MouseUp s)) = map shape (canvas s) \<and>
         map fill (canvas (step MouseUp s)) = map fill (canvas s) \<and>
         canvas (run [SetArrowThickness v, SetPieceColor c, MouseUp] s) = canvas (step MouseUp s)"
proof -
  let ?s = "s\<lparr>thicknessRef := v, colorRef := c\<rparr>"
  have "last (canvas (mouse_move cx cy (px, py) ?s)) =
           new_preview (nextId ?s) (generateArrowPath sx sy px py (thicknessRef ?s)) (colorRef ?s)"
    and "tempArrowRef (mouse_move cx cy (px, py) ?s) = Some (nextId ?s)"
    using assms by (intro mouse_move_preview; simp)+
  then show ?thesis
    by (simp add: run_def mouse_up_keeps_style mouse_up_ignores_style)
qed

theorem C7_style_read_at_each_move_witness:
  "map shape (canvas (run [MouseDown False 0 0 0 (0, 0), SetArrowThickness 16,
                           SetPieceColor ''#10b981'', MouseMove 100 0 (100, 0), MouseUp] arrow_ready))
     = [PathShape (generateArrowPath 0 0 100 0 16)] \<and>
   map fill (canvas (run [MouseDown False 0 0 0 (0, 0), SetArrowThickness 16,
                          SetPieceColor ''#10b981'', MouseMove 100 0 (100, 0), MouseUp] arrow_ready))
     = [''#10b981'']"
proof -
  let ?s = "run [MouseDown False 0 0 0 (0, 0)] arrow_ready"
  let ?t = "run [SetArrowThickness 16, SetPieceColor ''#10b981'', MouseMove 100 0 (100, 0)] ?s"
  have a: "\<not> isPanning ?s" "toolRef ?s = Arrow" "isDrawingRef ?s" "arrowStartRef ?s = Some (0, 0)"
    and n: "nextId ?s = 0" and c: "canvas ?s = []"
    by (simp_all add: arrow_ready_def run_simps)
  have len: "length (canvas ?t) = 1"
    by (simp add: arrow_ready_def run_simps example_paths)
  from C7_style_read_at_each_move[OF a example_paths(3), of "''#10b981''" 100 0] n
  have l: "last (canvas ?t) = new_preview 0 (generateArrowPath 0 0 100 0 16) ''#10b981''"
    by simp
  from len obtain ob where ob: "canvas ?t = [ob]" by (cases "canvas ?t") auto
  with l have "canvas ?t = [new_preview 0 (generateArrowPath 0 0 100 0 16) ''#10b981'']" by simp
  then have "map shape (canvas ?t) = [PathShape (generateArrowPath 0 0 100 0 16)]"
    and "map fill (canvas ?t) = [''#10b981'']"
    by (simp_all add: new_preview_def)
  moreover have "run [MouseDown False 0 0 0 (0, 0), SetArrowThickness 16,
                           SetPieceColor ''#10b981'', MouseMove 100 0 (100, 0), MouseUp] arrow_ready
                 = step MouseUp ?t"
    by (simp add: run_def)
  ultimately show ?thesis
    using C7_style_read_at_each_move[OF a example_paths(3), of "''#10b981''" 100 0]
    by (simp add: mouse_up_keeps_style)
qed

text \<open>
  The same drag, from \<open>(0,0)\<close> to \<open>(100,0)\<close>, started with thickness 6 and the colour
  \<open>#ef4444\<close>: when the controls are changed to 16 and \<open>#10b981\<close> between pointer-down and
  the move, the finalized arrow has the new thickness and colour.
\<close>

theorem C7_style_not_frozen_counterexample:
  "thicknessRef (run [MouseDown False 0 0 0 (0, 0)] arrow_ready) = 6 \<and>
   colorRef (run [MouseDown False 0 0 0 (0, 0)] arrow_ready) = ''#ef4444'' \<and>
   map shape (canvas (run [MouseDown False 0 0 0 (0, 0), MouseMove 100 0 (100, 0), MouseUp] arrow_ready))
     = [PathShape (generateArrowPath 0 0 100 0 6)] \<and>
   map fill (canvas (run [MouseDown False 0 0 0 (0, 0), MouseMove 100 0 (100, 0), MouseUp] arrow_ready))
     = [''#ef4444''] \<and>
   map shape (canvas (run [MouseDown False 0 0 0 (0, 0), SetArrowThickness 16,
                           SetPieceColor ''#10b981'', MouseMove 100 0 (100, 0), MouseUp] arrow_ready))
     = [PathShape (generateArrowPath 0 0 100 0 16)] \<and>
   map fill (canvas (run [MouseDown False 0 0 0 (0, 0), SetArrowThickness 16,
                          SetPieceColor ''#10b981'', MouseMove 100 0 (100, 0), MouseUp] arrow_ready))
     = [''#10b981''] \<and>
   generateArrowPath 0 0 100 0 16 \<noteq> generateArrowPath 0 0 100 0 6"
proof -
  have d: "generateArrowPath 0 0 100 0 16 \<noteq> generateArrowPath 0 0 100 0 6"
    by (simp add: generateArrowPath_def Let_def sqrt_10000)
  show ?thesis
    using d by (simp add: arrow_ready_def run_simps example_paths)
qed


section \<open>Deleting the selection\<close>

lemma lastn_short: "length xs \<le> n \<Longrightarrow> lastn n xs = xs"
  by (simp add: lastn_def)

lemma lastn_length: "length (lastn n xs) \<le> n"
  by (simp add: lastn_def)

lemma lastn_append: "lastn n (lastn n xs @ ys) = lastn n (xs @ ys)"
proof -
  have e: "length xs + length ys - (length xs - n + n) + (length xs - n) = length xs + length ys - n"
    by arith
  show ?thesis by (auto simp add: lastn_def e)
qed

lemma lastn_snoc: "0 < n \<Longrightarrow> lastn n (xs @ [x]) \<noteq> [] \<and> last (lastn n (xs @ [x])) = x"
  by (auto simp add: lastn_def)

lemma fold_commit:
  assumes "length h \<le> 50" "h \<noteq> []" "distinct_adj (last h # js)"
  shows "fold commit js h = lastn 50 (h @ js)"
  using assms
proof (induction js arbitrary: h)
  case Nil
  then show ?case by (simp add: lastn_short)
next
  case (Cons j js)
  let ?h = "lastn 50 (h @ [j])"
  have c: "commit j h = ?h"
    using Cons.prems by (intro commit_new) simp_all
  have l: "?h \<noteq> [] \<and> last ?h = j" by (rule lastn_snoc) simp
  have "fold commit js ?h = lastn 50 (?h @ js)"
    using Cons.prems l by (intro Cons.IH lastn_length) simp_all
  then show ?case by (simp add: c lastn_append)
qed

lemma removal_snapshots_distinct:
  "set ks \<subseteq> set (map oid c) \<Longrightarrow> distinct ks \<Longrightarrow> distinct_adj (toJSON c # removal_snapshots ks c)"
proof (induction ks arbitrary: c)
  case Nil
  show ?case by simp
next
  case (Cons k ks)
  let ?c = "filter (\<lambda>ob. oid ob \<noteq> k) c"
  from Cons.prems obtain ob where "ob \<in> set c" "oid ob = k" by auto
  then have "length ?c < length c" by (intro length_filter_less[of ob]) simp_all
  then have ne: "toJSON c \<noteq> toJSON ?c"
    by (metis length_map nat_neq_iff toJSON_def)
  have "set ks \<subseteq> set (map oid ?c)"
  proof
    fix x assume x: "x \<in> set ks"
    with Cons.prems have "x \<noteq> k" by auto
    moreover from x Cons.prems obtain ob' where "ob' \<in> set c" "oid ob' = x" by auto
    ultimately have "ob' \<in> set ?c" "oid ob' = x" by simp_all
    then show "x \<in> set (map oid ?c)" by force
  qed
  then have "distinct_adj (toJSON ?c # removal_snapshots ks ?c)"
    using Cons.prems by (intro Cons.IH) simp_all
  with ne show ?case by simp
qed

lemma length_removal_snapshots: "length (removal_snapshots ks c) = length ks"
  by (induction ks arbitrary: c) simp_all

lemma fold_canvas_remove:
  assumes "hasCanvas s" "set ks \<subseteq> set (map oid (canvas s))" "distinct ks"
  shows "canvas (fold canvas_remove ks s) = filter (\<lambda>ob. oid ob \<notin> set ks) (canvas s) \<and>
         historyRef (fold canvas_remove ks s) = fold commit (removal_snapshots ks (canvas s)) (historyRef s)"
  using assms
proof (induction ks arbitrary: s)
  case Nil
  show ?case by simp
next
  case (Cons k ks)
  let ?s = "canvas_remove k s"
  have h: "historyRef ?s = commit (toJSON (filter (\<lambda>ob. oid ob \<noteq> k) (canvas s))) (historyRef s)"
    using Cons.prems by (simp add: historyRef_canvas_remove)
  have "set ks \<subseteq> set (map oid (canvas ?s))"
  proof
    fix x assume x: "x \<in> set ks"
    with Cons.prems have "x \<noteq> k" by auto
    moreover from x Cons.prems obtain ob where "ob \<in> set (canvas s)" "oid ob = x" by auto
    ultimately have "ob \<in> set (filter (\<lambda>ob. oid ob \<noteq> k) (canvas s))" "oid ob = x" by simp_all
    then show "x \<in> set (map oid (canvas ?s))" by force
  qed
  then have ih: "canvas (fold canvas_remove ks ?s) = filter (\<lambda>ob. oid ob \<notin> set ks) (canvas ?s) \<and>
        historyRef (fold canvas_remove ks ?s) = fold commit (removal_snapshots ks (canvas ?s)) (historyRef ?s)"
    using Cons.prems by (intro Cons.IH) simp_all
  have f: "filter (\<lambda>ob. oid ob \<notin> set ks) (filter (\<lambda>ob. oid ob \<noteq> k) (canvas s))
           = filter (\<lambda>ob. oid ob \<notin> set (k # ks)) (canvas s)"
    by (simp add: conj_commute)
  show ?case using ih h f by simp
qed

text \<open>
  Claim C8, as amended. In a reachable state whose history top is the serialisation of
  the current scene, with a non-empty selection and no text being edited, Delete or
  Backspace removes every selected object from the canvas, and each removal commits: the
  stack becomes the old stack followed by one snapshot per removed object, the scene after
  that removal (the oldest entries evicted above 50). Each of these snapshots differs from
  the one before it, so none is skipped as a duplicate.
\<close>

theorem C8_delete_commits_per_object:
  assumes s: "s = run evs (initial w h)"
    and sel: "active s \<noteq> []" and ned: "\<not> editing s"
    and sync: "last (historyRef s) = toJSON (canvas s)"
  shows "canvas (step KeyDelete s) = filter (\<lambda>ob. oid ob \<notin> set (active s)) (canvas s) \<and>
         historyRef (step KeyDelete s) =
           lastn 50 (historyRef s @ removal_snapshots (active s) (canvas s)) \<and>
         length (removal_snapshots (active s) (canvas s)) = length (active s) \<and>
         distinct_adj (last (historyRef s) # removal_snapshots (active s) (canvas s))"
proof -
  have wf: "wf_state s" unfolding s by (rule wf_run)
  have len: "1 \<le> length (historyRef s) \<and> length (historyRef s) \<le> 50"
    unfolding s by (rule reachable_bounds)
  then have ne: "historyRef s \<noteq> []" by auto
  have hc: "hasCanvas s" and sub: "set (active s) \<subseteq> set (map oid (canvas s))" and d: "distinct (active s)"
    using wf by (simp_all add: wf_state_def)
  have da: "distinct_adj (last (historyRef s) # removal_snapshots (active s) (canvas s))"
    unfolding sync using sub d by (rule removal_snapshots_distinct)
  let ?s = "s\<lparr>active := [], editing := False\<rparr>"
  have k: "step KeyDelete s = fold canvas_remove (active s) ?s"
    using sel ned hc by (simp add: key_delete_def handleDeleteSelected_def Let_def)
  have f: "canvas (fold canvas_remove (active s) ?s) = filter (\<lambda>ob. oid ob \<notin> set (active s)) (canvas ?s) \<and>
        historyRef (fold canvas_remove (active s) ?s)
          = fold commit (removal_snapshots (active s) (canvas ?s)) (historyRef ?s)"
    using hc sub d by (intro fold_canvas_remove) simp_all
  have "fold commit (removal_snapshots (active s) (canvas s)) (historyRef s)
        = lastn 50 (historyRef s @ removal_snapshots (active s) (canvas s))"
    using len ne da by (intro fold_commit) simp_all
  with f k da show ?thesis by (simp add: length_removal_snapshots)
qed

theorem C8_delete_commits_per_object_witness:
  "active two_selected = [0, 1] \<and> \<not> editing two_selected \<and>
   last (historyRef two_selected) = toJSON (canvas two_selected) \<and>
   canvas (step KeyDelete two_selected) = [] \<and>
   length (historyRef (step KeyDelete two_selected)) = length (historyRef two_selected) + 2"
proof -
  have r: "two_selected = run [AddPiece, AddPiece, UserSelect [0, 1] False] (initial 800 600)"
    by (simp add: two_selected_def)
  have a: "active two_selected = [0, 1]" "\<not> editing two_selected"
    "last (historyRef two_selected) = toJSON (canvas two_selected)"
    "map oid (canvas two_selected) = [0, 1]" "length (historyRef two_selected) = 3"
    by (simp_all add: two_selected_def run_simps)
  have sel: "active two_selected \<noteq> []" using a(1) by simp
  have e: "filter (\<lambda>ob. oid ob \<notin> set [0, 1]) (canvas two_selected) = []"
    using a(4) by (auto simp add: filter_empty_conv)
  from C8_delete_commits_per_object[OF r sel a(2) a(3)] a e
  show ?thesis by (simp add: lastn_def)
qed

text \<open>
  Two units selected and deleted by one key press: the stack grows by two entries, not by
  one, because \<open>handleDeleteSelected\<close> calls \<open>canvas.remove\<close> once per object, each
  call fires \<open>object:removed\<close>, and the handler commits every time.
\<close>

theorem C8_two_commits_counterexample:
  "active two_selected = [0, 1] \<and> \<not> editing two_selected \<and>
   length (canvas two_selected) = 2 \<and> length (historyRef two_selected) = 3 \<and>
   canvas (run [KeyDelete] two_selected) = [] \<and>
   length (historyRef (run [KeyDelete] two_selected)) = 5"
  by (simp add: two_selected_def run_simps)


section \<open>Commits while an undo is materialised\<close>

text \<open>
  The claim C2 is that no entry is appended to the stack between the start of
  \<open>handleUndo\<close>'s load and its completion callback. The code tests \<open>isProcessing\<close> in
  \<open>saveHistory\<close>, but the handlers of the object events hold the \<open>saveHistory\<close> of the
  first render, in which \<open>isProcessing\<close> is \<open>false\<close>. Three units are placed and Ctrl+Z
  is pressed: \<open>handleUndo\<close> pops the stack to three entries and sets \<open>isProcessing\<close>;
  the load of the snapshot with two units then fires \<open>object:added\<close> twice, and both
  events commit, leaving five entries.
\<close>

lemma subscriptions_ignore_isProcessing:
  "on_object_added (s\<lparr>isProcessing := b\<rparr>) = (on_object_added s)\<lparr>isProcessing := b\<rparr>"
  "on_object_modified (s\<lparr>isProcessing := b\<rparr>) = (on_object_modified s)\<lparr>isProcessing := b\<rparr>"
  "on_object_removed (s\<lparr>isProcessing := b\<rparr>) = (on_object_removed s)\<lparr>isProcessing := b\<rparr>"
  by (simp_all add: on_object_added_def on_object_modified_def on_object_removed_def saveHistory_eq)

text \<open>
  Claim C2, evaluated on this session: between the pop and the completion of the load
  the stack grows from three entries to five.
\<close>

theorem C2_load_commits_not_suppressed:
  "isProcessing three_units_undone \<and>
   length (loading three_units_undone) = 1 \<and>
   length (historyRef three_units_undone) = 3 \<and>
   length (historyRef (run [LoadFromJSON] three_units_undone)) = 5 \<and>
   loading (run [LoadFromJSON] three_units_undone) = [] \<and>
   \<not> isProcessing (run [LoadFromJSON] three_units_undone)"
  by (simp add: three_units_undone_def run_simps)


section \<open>The background image and the tool switch\<close>

text \<open>
  Claim C10 says that the background image stays non-selectable and non-evented. The
  upload sets both flags to false, but the effect that runs on a tool change sets
  \<open>selectable\<close> on every object of the canvas, the image included. After a map is
  loaded and the tool is switched to the arrow and back, the image is selectable (it is
  still not evented); the user can then select it and delete it with the Delete key.
  The other half of the claim holds on this session: a second upload leaves one image,
  the new one.
\<close>

theorem C10_background_unlocked_by_tool_switch:
  "map is_image (canvas map_loaded) = [True] \<and>
   map selectable (canvas map_loaded) = [False] \<and>
   map evented (canvas map_loaded) = [False] \<and>
   map is_image (canvas (run [SetTool Arrow, SetTool Select] map_loaded)) = [True] \<and>
   map selectable (canvas (run [SetTool Arrow, SetTool Select] map_loaded)) = [True] \<and>
   map evented (canvas (run [SetTool Arrow, SetTool Select] map_loaded)) = [False] \<and>
   active (run [SetTool Arrow, SetTool Select, UserSelect [0] False] map_loaded) = [0] \<and>
   canvas (run [SetTool Arrow, SetTool Select, UserSelect [0] False, KeyDelete] map_loaded) = [] \<and>
   map shape (canvas (run [ImageLoaded ''map2'' 100 100] map_loaded)) = [ImageShape ''map2'' 1 400 300]"
  by (simp add: map_loaded_def run_simps)

end
